theory Spec2Isabelle
  imports Main
begin

section \<open>The context provider of openai-helper (src/openai_helper/context.py)\<close>

text \<open>
  A shallow embedding of class \<open>ContextProvider\<close>. The three libraries the class calls are
  not part of the repository and are taken as follows.
  \<^item> \<open>re\<close>: a compiled pattern is a value of an arbitrary type \<open>'p\<close>, and the method
    \<open>Pattern.search\<close> is the parameter \<open>search :: 'p \<Rightarrow> string \<Rightarrow> bool\<close> (whether a match object
    is returned). A pattern object is always truthy, so \<open>if self.regex_whitelist\<close> tests
    for \<open>None\<close> only.
  \<^item> \<open>tiktoken\<close>: \<open>len(encoding.encode(chunk, disallowed_special=()))\<close> is the parameter
    \<open>count_tokens :: string \<Rightarrow> nat\<close>.
  \<^item> \<open>pathlib\<close> and \<open>open\<close>: the file system is a finite tree of nodes; a path is the list of
    its components from the root of that tree.
\<close>

subsection \<open>Paths and the file system\<close>

type_synonym path = "string list"

text \<open>
  A regular file holds a sequence of items: \<open>Some c\<close> is a character whose bytes are
  valid UTF-8, \<open>None\<close> a byte that is not part of any valid sequence. A symbolic link
  counts as the node it resolves to, since \<open>is_file\<close> and \<open>is_dir\<close> follow links; \<open>Other\<close>
  is an entry that is neither a regular file nor a directory.
\<close>

datatype node = File "char option list" | Dir "(string \<times> node) list" | Other

text \<open>A file of valid text.\<close>

definition text_file :: "string \<Rightarrow> node" where
  "text_file s = File (map Some s)"

datatype error = UnicodeDecodeError | FileNotFoundError | NotADirectoryError
  | IsADirectoryError | ValueError

text \<open>\<open>path.name\<close>: the final component.\<close>

definition path_name :: "path \<Rightarrow> string" where
  "path_name p = (if p = [] then [] else last p)"

text \<open>\<open>str(path)\<close>: the components joined by the separator; the empty path prints as a dot.\<close>

fun join_components :: "path \<Rightarrow> string" where
  "join_components [] = []"
| "join_components [c] = c"
| "join_components (c # d # cs) = c @ ''/'' @ join_components (d # cs)"

definition str_path :: "path \<Rightarrow> string" where
  "str_path p = (if p = [] then ''.'' else join_components p)"

text \<open>\<open>name.startswith(".")\<close>.\<close>

definition starts_with_dot :: "string \<Rightarrow> bool" where
  "starts_with_dot s = (case s of [] \<Rightarrow> False | c # _ \<Rightarrow> c = CHR ''.'')"

text \<open>Resolving a path in the tree.\<close>

fun lookup :: "node \<Rightarrow> path \<Rightarrow> node option" where
  "lookup n [] = Some n"
| "lookup (Dir es) (c # cs) =
     (case map_of es c of None \<Rightarrow> None | Some n \<Rightarrow> lookup n cs)"
| "lookup (File items) (c # cs) = None"
| "lookup Other (c # cs) = None"

text \<open>\<open>top.iterdir()\<close>: the entries of a directory, or the error raised.\<close>

definition iterdir :: "node \<Rightarrow> path \<Rightarrow> error + (string \<times> node) list" where
  "iterdir fs tp =
     (case lookup fs tp of
        None \<Rightarrow> Inl FileNotFoundError
      | Some (Dir es) \<Rightarrow> Inr es
      | Some (File items) \<Rightarrow> Inl NotADirectoryError
      | Some Other \<Rightarrow> Inl NotADirectoryError)"

text \<open>
  The argument \<open>errors\<close> of \<open>open\<close>. The handle of an open file is the decoded text
  still to be read and a flag telling whether the decoder raises after that text. With
  \<open>errors='ignore'\<close> the undecodable bytes are dropped and the decoder never raises; with
  \<open>errors='strict'\<close> the text ends before the first undecodable byte.
\<close>

datatype errors_mode = Strict | Ignore

type_synonym handle = "string \<times> bool"

definition decode :: "errors_mode \<Rightarrow> char option list \<Rightarrow> handle" where
  "decode mode items =
     (case mode of
        Ignore \<Rightarrow> (List.map_filter (\<lambda>x. x) items, False)
      | Strict \<Rightarrow> (List.map_filter (\<lambda>x. x) (takeWhile (\<lambda>x. x \<noteq> None) items),
                   None \<in> set items))"

text \<open>\<open>open(path, 'r', encoding='utf-8', errors=mode)\<close>.\<close>

definition open_file :: "node \<Rightarrow> errors_mode \<Rightarrow> path \<Rightarrow> error + handle" where
  "open_file fs mode p =
     (case lookup fs p of
        None \<Rightarrow> Inl FileNotFoundError
      | Some (File items) \<Rightarrow> Inr (decode mode items)
      | Some (Dir es) \<Rightarrow> Inl IsADirectoryError
      | Some Other \<Rightarrow> Inl FileNotFoundError)"

subsection \<open>The provider's configuration\<close>

record 'p provider =
  directory :: path
  regex_whitelist :: "'p option"
  regex_blacklist :: "'p option"
  allow_hidden :: bool
  recursive :: bool
  allow_hidden_subdirectories :: bool
  regex_path_whitelist :: "'p option"
  regex_path_blacklist :: "'p option"
  skip_unreadable :: bool
  skip_empty :: bool

text \<open>\<open>re.compile(s) if s else None\<close>: an absent or empty pattern string sets no filter.\<close>

definition compile_if_set :: "(string \<Rightarrow> 'p) \<Rightarrow> string option \<Rightarrow> 'p option" where
  "compile_if_set re_compile s =
     (case s of None \<Rightarrow> None | Some x \<Rightarrow> if x = [] then None else Some (re_compile x))"

text \<open>\<open>__init__\<close>, and the provider its default arguments build.\<close>

definition init :: "(string \<Rightarrow> 'p) \<Rightarrow> path \<Rightarrow> string option \<Rightarrow> string option \<Rightarrow> bool \<Rightarrow> bool
    \<Rightarrow> bool \<Rightarrow> string option \<Rightarrow> string option \<Rightarrow> bool \<Rightarrow> bool \<Rightarrow> 'p provider" where
  "init re_compile dir wl bl hidden recur hidden_sub pwl pbl unreadable skip_e =
     \<lparr>directory = dir,
      regex_whitelist = compile_if_set re_compile wl,
      regex_blacklist = compile_if_set re_compile bl,
      allow_hidden = hidden,
      recursive = recur,
      allow_hidden_subdirectories = hidden_sub,
      regex_path_whitelist = compile_if_set re_compile pwl,
      regex_path_blacklist = compile_if_set re_compile pbl,
      skip_unreadable = unreadable,
      skip_empty = skip_e\<rparr>"

definition default_provider :: "path \<Rightarrow> 'p provider" where
  "default_provider dir =
     \<lparr>directory = dir, regex_whitelist = None, regex_blacklist = None,
      allow_hidden = False, recursive = True, allow_hidden_subdirectories = False,
      regex_path_whitelist = None, regex_path_blacklist = None,
      skip_unreadable = True, skip_empty = False\<rparr>"

subsection \<open>The path filter\<close>

text \<open>\<open>_file_matches\<close>: five guards, each returning \<open>False\<close>, then \<open>True\<close>.\<close>

definition file_matches :: "('p \<Rightarrow> string \<Rightarrow> bool) \<Rightarrow> 'p provider \<Rightarrow> path \<Rightarrow> bool" where
  "file_matches search cfg p =
     (if \<not> allow_hidden cfg \<and> starts_with_dot (path_name p) then False
      else if (case regex_whitelist cfg of None \<Rightarrow> False
               | Some r \<Rightarrow> \<not> search r (path_name p)) then False
      else if (case regex_blacklist cfg of None \<Rightarrow> False
               | Some r \<Rightarrow> search r (path_name p)) then False
      else if (case regex_path_whitelist cfg of None \<Rightarrow> False
               | Some r \<Rightarrow> \<not> search r (str_path p)) then False
      else if (case regex_path_blacklist cfg of None \<Rightarrow> False
               | Some r \<Rightarrow> search r (str_path p)) then False
      else True)"

subsection \<open>The recursive walker\<close>

text \<open>
  The body of \<open>iter_file_paths\<close> over the entries \<open>top.iterdir()\<close> returned: a regular file
  is yielded when it matches; a directory is entered when \<open>recursive\<close> holds and it is
  not hidden or hidden subdirectories are allowed; anything else is passed over.
\<close>

fun walk :: "('p \<Rightarrow> string \<Rightarrow> bool) \<Rightarrow> 'p provider \<Rightarrow> path \<Rightarrow> (string \<times> node) list \<Rightarrow> path list" where
  "walk search cfg tp [] = []"
| "walk search cfg tp ((name, File items) # es) =
     (if file_matches search cfg (tp @ [name]) then [tp @ [name]] else [])
     @ walk search cfg tp es"
| "walk search cfg tp ((name, Dir sub) # es) =
     (if recursive cfg
         \<and> (allow_hidden_subdirectories cfg \<or> \<not> starts_with_dot (path_name (tp @ [name])))
      then walk search cfg (tp @ [name]) sub else [])
     @ walk search cfg tp es"
| "walk search cfg tp ((name, Other) # es) = walk search cfg tp es"

text \<open>\<open>iter_file_paths(top)\<close>, with \<open>top = top or self.directory\<close>.\<close>

definition iter_file_paths :: "('p \<Rightarrow> string \<Rightarrow> bool) \<Rightarrow> 'p provider \<Rightarrow> node \<Rightarrow> path option
    \<Rightarrow> error + path list" where
  "iter_file_paths search cfg fs tp =
     (let t = (case tp of None \<Rightarrow> directory cfg | Some q \<Rightarrow> q)
      in case iterdir fs t of Inl e \<Rightarrow> Inl e | Inr es \<Rightarrow> Inr (walk search cfg t es))"

subsection \<open>Reading a file in chunks\<close>

text \<open>
  \<open>str.strip()\<close> removes the characters for which \<open>str.isspace()\<close> holds from both ends.
  A \<open>char\<close> stands for a code point below 256; there these are 9 to 13, 28 to 32, 133
  and 160.
\<close>

definition is_space :: "char \<Rightarrow> bool" where
  "is_space c =
     (let n = (of_char c :: nat)
      in (9 \<le> n \<and> n \<le> 13) \<or> (28 \<le> n \<and> n \<le> 32) \<or> n = 133 \<or> n = 160)"

definition strip :: "string \<Rightarrow> string" where
  "strip s = rev (dropWhile is_space (rev (dropWhile is_space s)))"

text \<open>
  \<open>file.read(chunk_size)\<close>: a negative size reads everything that is left, otherwise at
  most \<open>chunk_size\<close> characters are returned, fewer only at the end of the file. The decoder
  raises when the text before the undecodable byte does not fill the request.
\<close>

definition file_read :: "int \<Rightarrow> handle \<Rightarrow> error + (string \<times> handle)" where
  "file_read n h =
     (case h of (rest, bad) \<Rightarrow>
        if n < 0 then (if bad then Inl UnicodeDecodeError else Inr (rest, ([], False)))
        else if nat n \<le> length rest then Inr (take (nat n) rest, (drop (nat n) rest, bad))
        else if bad then Inl UnicodeDecodeError
        else Inr (rest, ([], False)))"

text \<open>
  How the \<open>while True\<close> loop over one open file ends: the \<open>return\<close> after the yield of
  line 99 (running total and content so far), the \<open>break\<close> at the end of the file (tokens
  of the file, running total, content), or \<open>UnicodeDecodeError\<close> (running total).
\<close>

datatype file_result = Exceeded nat string | Finished nat nat string | DecodeFailed nat

function read_loop :: "(string \<Rightarrow> nat) \<Rightarrow> int \<Rightarrow> int \<Rightarrow> handle \<Rightarrow> string \<Rightarrow> nat \<Rightarrow> nat
    \<Rightarrow> file_result" where
  "read_loop count_tokens chunk_size token_limit h file_content file_tokens running =
     (case file_read chunk_size h of
        Inl e \<Rightarrow> DecodeFailed running
      | Inr (chunk, h') \<Rightarrow>
          if chunk = [] then Finished file_tokens running file_content
          else
            let chunk' = strip chunk;
                file_content' = file_content @ chunk';
                chunk_tokens = count_tokens chunk';
                file_tokens' = file_tokens + chunk_tokens;
                running' = running + chunk_tokens
            in if int running' > token_limit then Exceeded running' file_content'
               else read_loop count_tokens chunk_size token_limit h' file_content'
                      file_tokens' running')"
  by pat_completeness auto
termination
proof (relation "measure (\<lambda>(c, n, l, h, fc, ft, t). length (fst h))", goal_cases)
  case 1
  show ?case by simp
next
  case (2 c n l h fc ft t x chunk h')
  then show ?case
    by (cases h) (auto simp: file_read_def split: if_splits)
qed

subsection \<open>The record generator\<close>

text \<open>
  What a full run of the generator \<open>iter_files\<close> does: the records it yields, the paths
  it logs with \<open>logger.error\<close>, the paths it opens, the final value of \<open>total_tokens\<close>, and
  how it ends: the \<open>for\<close> loop runs out of paths, line 100 returns, or an exception leaves
  the generator.
\<close>

datatype outcome = Exhausted | Returned | Raised error

record run =
  yielded :: "(nat \<times> path \<times> string) list"
  logged :: "path list"
  opened :: "path list"
  total_tokens :: nat
  outcome :: outcome

definition yield_first :: "nat \<times> path \<times> string \<Rightarrow> run \<Rightarrow> run" where
  "yield_first r x = x\<lparr>yielded := r # yielded x\<rparr>"

definition log_first :: "path \<Rightarrow> run \<Rightarrow> run" where
  "log_first p x = x\<lparr>logged := p # logged x\<rparr>"

definition open_first :: "path \<Rightarrow> run \<Rightarrow> run" where
  "open_first p x = x\<lparr>opened := p # opened x\<rparr>"

text \<open>
  The \<open>for\<close> loop of \<open>iter_files\<close> over the paths still to come, from the running total
  \<open>running\<close>. Each file is opened with \<open>errors='ignore'\<close>. An error of \<open>open\<close> is not
  caught; \<open>UnicodeDecodeError\<close> is. The test of \<open>skip_empty\<close> is the last
  statement of the body; both its branches go on with the next path.
\<close>

fun files_loop :: "(string \<Rightarrow> nat) \<Rightarrow> 'p provider \<Rightarrow> node \<Rightarrow> int \<Rightarrow> int \<Rightarrow> nat \<Rightarrow> path list
    \<Rightarrow> run" where
  "files_loop count_tokens cfg fs chunk_size token_limit running [] =
     \<lparr>yielded = [], logged = [], opened = [], total_tokens = running, outcome = Exhausted\<rparr>"
| "files_loop count_tokens cfg fs chunk_size token_limit running (p # ps) =
     (case open_file fs Ignore p of
        Inl e \<Rightarrow>
          \<lparr>yielded = [], logged = [], opened = [], total_tokens = running, outcome = Raised e\<rparr>
      | Inr h \<Rightarrow>
          open_first p
            (case read_loop count_tokens chunk_size token_limit h [] 0 running of
               Exceeded running' file_content \<Rightarrow>
                 \<lparr>yielded = [(running', p, file_content)], logged = [], opened = [],
                  total_tokens = running', outcome = Returned\<rparr>
             | DecodeFailed running' \<Rightarrow>
                 log_first p
                   (if skip_unreadable cfg
                    then files_loop count_tokens cfg fs chunk_size token_limit running' ps
                    else \<lparr>yielded = [], logged = [], opened = [], total_tokens = running',
                          outcome = Raised UnicodeDecodeError\<rparr>)
             | Finished file_tokens running' file_content \<Rightarrow>
                 (if file_tokens > 0 then yield_first (file_tokens, p, file_content)
                  else (\<lambda>x. x))
                   (if skip_empty cfg \<and> file_content = []
                    then files_loop count_tokens cfg fs chunk_size token_limit running' ps
                    else files_loop count_tokens cfg fs chunk_size token_limit running' ps)))"

text \<open>\<open>iter_files(top, chunk_size, token_limit)\<close>; the defaults are 1024 and 10000.\<close>

definition iter_files :: "(string \<Rightarrow> nat) \<Rightarrow> ('p \<Rightarrow> string \<Rightarrow> bool) \<Rightarrow> 'p provider \<Rightarrow> node
    \<Rightarrow> path option \<Rightarrow> int \<Rightarrow> int \<Rightarrow> run" where
  "iter_files count_tokens search cfg fs tp chunk_size token_limit =
     (case iter_file_paths search cfg fs tp of
        Inl e \<Rightarrow>
          \<lparr>yielded = [], logged = [], opened = [], total_tokens = 0, outcome = Raised e\<rparr>
      | Inr ps \<Rightarrow> files_loop count_tokens cfg fs chunk_size token_limit 0 ps)"

definition default_chunk_size :: int where
  "default_chunk_size = 1024"

definition default_token_limit :: int where
  "default_token_limit = 10000"

subsection \<open>The two consumers\<close>

text \<open>\<open>calculate_tokens(top)\<close>: the sum over the records; an exception of the generator
  leaves \<open>sum\<close> as well.\<close>

definition calculate_tokens :: "(string \<Rightarrow> nat) \<Rightarrow> ('p \<Rightarrow> string \<Rightarrow> bool) \<Rightarrow> 'p provider \<Rightarrow> node
    \<Rightarrow> path option \<Rightarrow> error + nat" where
  "calculate_tokens count_tokens search cfg fs tp =
     (let x = iter_files count_tokens search cfg fs tp default_chunk_size default_token_limit
      in case outcome x of
           Raised e \<Rightarrow> Inl e
         | Exhausted \<Rightarrow> Inr (sum_list (map fst (yielded x)))
         | Returned \<Rightarrow> Inr (sum_list (map fst (yielded x))))"

text \<open>\<open>path.relative_to(directory)\<close> raises \<open>ValueError\<close> unless the directory is a prefix.\<close>

fun relative_to :: "path \<Rightarrow> path \<Rightarrow> error + path" where
  "relative_to p [] = Inr p"
| "relative_to [] (d # ds) = Inl ValueError"
| "relative_to (c # cs) (d # ds) = (if c = d then relative_to cs ds else Inl ValueError)"

text \<open>The f-string of \<open>get_context\<close> for one record.\<close>

definition format_record :: "path \<Rightarrow> nat \<times> path \<times> string \<Rightarrow> error + string" where
  "format_record dir r =
     (case r of (tokens, p, file_content) \<Rightarrow>
        (case relative_to p dir of
           Inl e \<Rightarrow> Inl e
         | Inr rel \<Rightarrow>
             Inr (''// File '' @ [CHR 0x27] @ str_path rel @ [CHR 0x27, CHR 0x0A]
                  @ file_content @ [CHR 0x0A])))"

text \<open>
  The generator expression that \<open>join\<close> consumes: each record is formatted when it is
  pulled, so an error of the formatting comes before an exception the generator raises
  after that record.
\<close>

fun format_all :: "path \<Rightarrow> (nat \<times> path \<times> string) list \<Rightarrow> outcome \<Rightarrow> error + string list" where
  "format_all dir [] out = (case out of Raised e \<Rightarrow> Inl e | Exhausted \<Rightarrow> Inr []
                            | Returned \<Rightarrow> Inr [])"
| "format_all dir (r # rs) out =
     (case format_record dir r of
        Inl e \<Rightarrow> Inl e
      | Inr s \<Rightarrow> (case format_all dir rs out of Inl e \<Rightarrow> Inl e | Inr ss \<Rightarrow> Inr (s # ss)))"

text \<open>\<open>sep.join(items)\<close>.\<close>

fun join :: "string \<Rightarrow> string list \<Rightarrow> string" where
  "join sep [] = []"
| "join sep [s] = s"
| "join sep (s # t # ss) = s @ sep @ join sep (t # ss)"

definition get_context :: "(string \<Rightarrow> nat) \<Rightarrow> ('p \<Rightarrow> string \<Rightarrow> bool) \<Rightarrow> 'p provider \<Rightarrow> node
    \<Rightarrow> error + string" where
  "get_context count_tokens search cfg fs =
     (let x = iter_files count_tokens search cfg fs None default_chunk_size default_token_limit
      in case format_all (directory cfg) (yielded x) (outcome x) of
           Inl e \<Rightarrow> Inl e
         | Inr ss \<Rightarrow> Inr (join [CHR 0x0A, CHR 0x0A, CHR 0x0A] ss))"

subsection \<open>What the read loop sees\<close>

text \<open>
  The statements below speak of the chunks that the successive calls of \<open>file.read\<close> return
  on a handle before the end of the file or the decode failure, of whether these calls end
  in the failure, and of the tokens and the content the loop accumulates over a list of
  chunks.
\<close>


function read_chunks :: "int \<Rightarrow> handle \<Rightarrow> string list" where
  "read_chunks chunk_size h =
     (case file_read chunk_size h of
        Inl e \<Rightarrow> []
      | Inr (chunk, h') \<Rightarrow> if chunk = [] then [] else chunk # read_chunks chunk_size h')"
  by pat_completeness auto
termination
proof (relation "measure (\<lambda>(n, h). length (fst h))", goal_cases)
  case 1
  show ?case by simp
next
  case (2 n h x chunk h')
  then show ?case
    by (cases h) (auto simp: file_read_def split: if_splits)
qed

function read_fails :: "int \<Rightarrow> handle \<Rightarrow> bool" where
  "read_fails chunk_size h =
     (case file_read chunk_size h of
        Inl e \<Rightarrow> True
      | Inr (chunk, h') \<Rightarrow> if chunk = [] then False else read_fails chunk_size h')"
  by pat_completeness auto
termination
proof (relation "measure (\<lambda>(n, h). length (fst h))", goal_cases)
  case 1
  show ?case by simp
next
  case (2 n h x chunk h')
  then show ?case
    by (cases h) (auto simp: file_read_def split: if_splits)
qed

definition tokens_of :: "(string \<Rightarrow> nat) \<Rightarrow> string list \<Rightarrow> nat" where
  "tokens_of count_tokens chunks = sum_list (map (\<lambda>c. count_tokens (strip c)) chunks)"

definition content_of :: "string list \<Rightarrow> string" where
  "content_of chunks = concat (map strip chunks)"


text \<open>
  The regular files the walker can reach from the entries of a directory: those among the
  entries, and those reachable in a subdirectory that may be entered.
\<close>

inductive reachable_file :: "'p provider \<Rightarrow> path \<Rightarrow> (string \<times> node) list \<Rightarrow> path \<Rightarrow> bool"
  for cfg :: "'p provider" where
  here: "(name, File items) \<in> set es \<Longrightarrow> reachable_file cfg tp es (tp @ [name])"
| below: "(name, Dir sub) \<in> set es \<Longrightarrow> recursive cfg
     \<Longrightarrow> allow_hidden_subdirectories cfg \<or> \<not> starts_with_dot name
     \<Longrightarrow> reachable_file cfg (tp @ [name]) sub p \<Longrightarrow> reachable_file cfg tp es p"

subsection \<open>Example inputs\<close>

text \<open>
  A directory \<open>proj\<close> with visible and hidden files and subdirectories, a file of blanks
  only, a file that starts with a byte that is not valid UTF-8, an entry that is neither
  file nor directory and a subdirectory holding one empty file; a
  pattern language of single characters whose \<open>search\<close> finds the character anywhere in
  the string. The tokenizer of the examples is \<open>length\<close>: one token per character.
\<close>

definition example_fs :: node where
  "example_fs =
     Dir [(''proj'',
       Dir [(''a.txt'', text_file ''hello''),
            (''.env'', text_file ''x''),
            (''blank'', text_file ''  ''),
            (''sub'', Dir [(''b.txt'', text_file ''ab cd'')]),
            (''.git'', Dir [(''c'', text_file ''q'')]),
            (''dev'', Other),
            (''bad.bin'', File [None, Some CHR ''z'', Some CHR ''z'']),
            (''z.txt'', text_file ''end''),
            (''empty'', Dir [(''void'', text_file [])])])]"

definition char_search :: "char \<Rightarrow> string \<Rightarrow> bool" where
  "char_search c s = (c \<in> set s)"

text \<open>A directory of two text files, and a directory whose single file \<open>a.txt\<close> holds \<open>hello\<close>.\<close>

definition example_pair :: node where
  "example_pair =
     Dir [(''docs'', Dir [(''x.txt'', text_file ''one two''), (''y.txt'', text_file '' three '')])]"


section \<open>Properties\<close>

subsection \<open>The read loop\<close>

declare read_loop.simps [simp del] read_chunks.simps [simp del] read_fails.simps [simp del]

lemma tokens_of_simps [simp]:
  "tokens_of tok [] = 0"
  "tokens_of tok (c # cs) = tok (strip c) + tokens_of tok cs"
  "tokens_of tok (xs @ ys) = tokens_of tok xs + tokens_of tok ys"
  by (simp_all add: tokens_of_def)

lemma content_of_simps [simp]:
  "content_of [] = []"
  "content_of (c # cs) = strip c @ content_of cs"
  "content_of (xs @ ys) = content_of xs @ content_of ys"
  by (simp_all add: content_of_def)

lemma read_loop_Finished:
  "read_loop tok n lim h fc ft t = Finished ft' t' c \<Longrightarrow>
     \<not> read_fails n h \<and> ft' = ft + tokens_of tok (read_chunks n h)
     \<and> t' = t + tokens_of tok (read_chunks n h)
     \<and> c = fc @ content_of (read_chunks n h)
     \<and> (read_chunks n h \<noteq> [] \<longrightarrow> int t' \<le> lim)"
proof (induction tok n lim h fc ft t rule: read_loop.induct)
  case (1 tok n lim h fc ft t)
  show ?case
  proof (cases "file_read n h")
    case (Inl e)
    with "1.prems" show ?thesis by (simp add: read_loop.simps)
  next
    case (Inr x)
    obtain chunk h' where x: "x = (chunk, h')" by (cases x)
    show ?thesis
    proof (cases "chunk = []")
      case True
      with "1.prems" Inr x show ?thesis
        by (simp add: read_loop.simps read_chunks.simps[of n h] read_fails.simps[of n h])
    next
      case False
      let ?t = "t + tok (strip chunk)"
      from "1.prems" Inr x False have le: "\<not> int ?t > lim"
        by (auto simp: read_loop.simps[of tok n lim h] Let_def split: if_splits)
      with "1.prems" Inr x False
      have rec: "read_loop tok n lim h' (fc @ strip chunk) (ft + tok (strip chunk)) ?t = Finished ft' t' c"
        by (simp add: read_loop.simps[of tok n lim h] Let_def)
      from "1.IH"[OF Inr x[symmetric] False refl refl refl refl refl le rec] Inr x False le
      show ?thesis
        by (cases "read_chunks n h' = []")
           (simp_all add: read_chunks.simps[of n h] read_fails.simps[of n h])
    qed
  qed
qed


lemma read_loop_DecodeFailed:
  "read_loop tok n lim h fc ft t = DecodeFailed t' \<Longrightarrow>
     read_fails n h \<and> t' = t + tokens_of tok (read_chunks n h)
     \<and> (read_chunks n h \<noteq> [] \<longrightarrow> int t' \<le> lim)"
proof (induction tok n lim h fc ft t rule: read_loop.induct)
  case (1 tok n lim h fc ft t)
  show ?case
  proof (cases "file_read n h")
    case (Inl e)
    with "1.prems" show ?thesis
      by (simp add: read_loop.simps read_chunks.simps[of n h] read_fails.simps[of n h])
  next
    case (Inr x)
    obtain chunk h' where x: "x = (chunk, h')" by (cases x)
    show ?thesis
    proof (cases "chunk = []")
      case True
      with "1.prems" Inr x show ?thesis
        by (simp add: read_loop.simps)
    next
      case False
      let ?t = "t + tok (strip chunk)"
      from "1.prems" Inr x False have le: "\<not> int ?t > lim"
        by (auto simp: read_loop.simps[of tok n lim h] Let_def split: if_splits)
      with "1.prems" Inr x False
      have rec: "read_loop tok n lim h' (fc @ strip chunk) (ft + tok (strip chunk)) ?t = DecodeFailed t'"
        by (simp add: read_loop.simps[of tok n lim h] Let_def)
      from "1.IH"[OF Inr x[symmetric] False refl refl refl refl refl le rec] Inr x False le
      show ?thesis
        by (cases "read_chunks n h' = []")
           (simp_all add: read_chunks.simps[of n h] read_fails.simps[of n h])
    qed
  qed
qed

lemma read_loop_Exceeded:
  "read_loop tok n lim h fc ft t = Exceeded t' c \<Longrightarrow>
     \<exists>k < length (read_chunks n h).
        t' = t + tokens_of tok (take (Suc k) (read_chunks n h))
      \<and> c = fc @ content_of (take (Suc k) (read_chunks n h))
      \<and> int t' > lim
      \<and> (k = 0 \<or> int (t + tokens_of tok (take k (read_chunks n h))) \<le> lim)"
proof (induction tok n lim h fc ft t rule: read_loop.induct)
  case (1 tok n lim h fc ft t)
  show ?case
  proof (cases "file_read n h")
    case (Inl e)
    with "1.prems" show ?thesis by (simp add: read_loop.simps)
  next
    case (Inr x)
    obtain chunk h' where x: "x = (chunk, h')" by (cases x)
    show ?thesis
    proof (cases "chunk = []")
      case True
      with "1.prems" Inr x show ?thesis by (simp add: read_loop.simps)
    next
      case False
      let ?t = "t + tok (strip chunk)"
      have cs: "read_chunks n h = chunk # read_chunks n h'"
        using Inr x False by (simp add: read_chunks.simps[of n h])
      show ?thesis
      proof (cases "int ?t > lim")
        case True
        with "1.prems" Inr x False have "t' = ?t" "c = fc @ strip chunk"
          by (simp_all add: read_loop.simps[of tok n lim h] Let_def)
        with True cs show ?thesis by (intro exI[of _ 0]) simp
      next
        case le: False
        with "1.prems" Inr x False
        have rec: "read_loop tok n lim h' (fc @ strip chunk) (ft + tok (strip chunk)) ?t = Exceeded t' c"
          by (simp add: read_loop.simps[of tok n lim h] Let_def)
        from "1.IH"[OF Inr x[symmetric] False refl refl refl refl refl le rec]
        obtain k where k: "k < length (read_chunks n h')"
          "t' = ?t + tokens_of tok (take (Suc k) (read_chunks n h'))"
          "c = (fc @ strip chunk) @ content_of (take (Suc k) (read_chunks n h'))"
          "int t' > lim"
          "k = 0 \<or> int (?t + tokens_of tok (take k (read_chunks n h'))) \<le> lim"
          by blast
        from k le cs show ?thesis
          by (intro exI[of _ "Suc k"]) (auto simp: add.assoc)
      qed
    qed
  qed
qed

lemma tokens_of_take_le: "tokens_of tok (take k cs) \<le> tokens_of tok cs"
proof -
  have "tokens_of tok cs = tokens_of tok (take k cs) + tokens_of tok (drop k cs)"
    by (metis append_take_drop_id tokens_of_simps(3))
  then show ?thesis by simp
qed

lemma tokens_of_take_mono: "i \<le> j \<Longrightarrow> tokens_of tok (take i cs) \<le> tokens_of tok (take j cs)"
  using tokens_of_take_le[of tok i "take j cs"] by (simp add: min_def)

lemma read_loop_within:
  assumes "read_chunks n h = [] \<or> int (t + tokens_of tok (read_chunks n h)) \<le> lim"
  shows "read_loop tok n lim h fc ft t =
     (if read_fails n h then DecodeFailed (t + tokens_of tok (read_chunks n h))
      else Finished (ft + tokens_of tok (read_chunks n h)) (t + tokens_of tok (read_chunks n h))
             (fc @ content_of (read_chunks n h)))"
proof (cases "read_loop tok n lim h fc ft t")
  case (Exceeded t' c)
  from read_loop_Exceeded[OF this] obtain k where k: "k < length (read_chunks n h)"
    "t' = t + tokens_of tok (take (Suc k) (read_chunks n h))" "int t' > lim"
    by blast
  from k(1) have "read_chunks n h \<noteq> []" by auto
  moreover have "t' \<le> t + tokens_of tok (read_chunks n h)"
    using k(2) tokens_of_take_le[of tok "Suc k" "read_chunks n h"] by simp
  ultimately show ?thesis using assms k(3) by linarith
next
  case (Finished ft' t' c)
  from read_loop_Finished[OF this] Finished show ?thesis by simp
next
  case (DecodeFailed t')
  from read_loop_DecodeFailed[OF this] DecodeFailed show ?thesis by simp
qed

lemma read_loop_exceeds:
  assumes k: "k < length (read_chunks n h)"
    and before: "k = 0 \<or> int (t + tokens_of tok (take k (read_chunks n h))) \<le> lim"
    and after: "int (t + tokens_of tok (take (Suc k) (read_chunks n h))) > lim"
  shows "read_loop tok n lim h fc ft t =
     Exceeded (t + tokens_of tok (take (Suc k) (read_chunks n h)))
       (fc @ content_of (take (Suc k) (read_chunks n h)))"
proof (cases "read_loop tok n lim h fc ft t")
  case (Exceeded t' c)
  from read_loop_Exceeded[OF this] obtain j where j: "j < length (read_chunks n h)"
    "t' = t + tokens_of tok (take (Suc j) (read_chunks n h))"
    "c = fc @ content_of (take (Suc j) (read_chunks n h))"
    "int t' > lim"
    "j = 0 \<or> int (t + tokens_of tok (take j (read_chunks n h))) \<le> lim"
    by blast
  have "j = k"
  proof (rule ccontr)
    assume "j \<noteq> k"
    then consider "j < k" | "k < j" by linarith
    then show False
    proof cases
      case 1
      then have "Suc j \<le> k" "k \<noteq> 0" by simp_all
      from tokens_of_take_mono[OF this(1), of tok "read_chunks n h"] j(2,4) before this(2)
      show False by linarith
    next
      case 2
      then have "Suc k \<le> j" "j \<noteq> 0" by simp_all
      from tokens_of_take_mono[OF this(1), of tok "read_chunks n h"] j(5) after this(2)
      show False by linarith
    qed
  qed
  with j Exceeded show ?thesis by simp
next
  case (Finished ft' t' c)
  from read_loop_Finished[OF this] k
  have "int (t + tokens_of tok (read_chunks n h)) \<le> lim" by auto
  with after tokens_of_take_le[of tok "Suc k" "read_chunks n h"] show ?thesis by linarith
next
  case (DecodeFailed t')
  from read_loop_DecodeFailed[OF this] k
  have "int (t + tokens_of tok (read_chunks n h)) \<le> lim" by auto
  with after tokens_of_take_le[of tok "Suc k" "read_chunks n h"] show ?thesis by linarith
qed

subsection \<open>Fields of a run\<close>

lemma run_fields [simp]:
  "yielded (yield_first r x) = r # yielded x"
  "logged (yield_first r x) = logged x"
  "opened (yield_first r x) = opened x"
  "total_tokens (yield_first r x) = total_tokens x"
  "outcome (yield_first r x) = outcome x"
  "yielded (log_first p x) = yielded x"
  "logged (log_first p x) = p # logged x"
  "opened (log_first p x) = opened x"
  "total_tokens (log_first p x) = total_tokens x"
  "outcome (log_first p x) = outcome x"
  "yielded (open_first p x) = yielded x"
  "logged (open_first p x) = logged x"
  "opened (open_first p x) = p # opened x"
  "total_tokens (open_first p x) = total_tokens x"
  "outcome (open_first p x) = outcome x"
  by (simp_all add: yield_first_def log_first_def open_first_def)

lemma path_name_snoc [simp]: "path_name (tp @ [name]) = name"
  by (simp add: path_name_def)

subsection \<open>The path filter\<close>

text \<open>
  Claim C2. A path is included exactly when it passes the five rules: it is not hidden or
  hidden files are allowed; the name whitelist, when set, finds a match in the base name;
  the name blacklist, when set, finds none there; the path whitelist, when set, finds a
  match in the full path string; the path blacklist, when set, finds none there. The only
  operation applied to a pattern is \<open>search\<close>. A file named \<open>.env\<close> is excluded when
  \<open>allow_hidden\<close> is false, and when it is true it is included exactly when the four
  pattern rules pass.
\<close>

theorem file_matches_rules:
  "(file_matches search cfg p \<longleftrightarrow>
      (allow_hidden cfg \<or> \<not> starts_with_dot (path_name p))
    \<and> (\<forall>r. regex_whitelist cfg = Some r \<longrightarrow> search r (path_name p))
    \<and> (\<forall>r. regex_blacklist cfg = Some r \<longrightarrow> \<not> search r (path_name p))
    \<and> (\<forall>r. regex_path_whitelist cfg = Some r \<longrightarrow> search r (str_path p))
    \<and> (\<forall>r. regex_path_blacklist cfg = Some r \<longrightarrow> \<not> search r (str_path p)))
   \<and> (path_name p = ''.env'' \<longrightarrow>
        \<not> file_matches search (cfg\<lparr>allow_hidden := False\<rparr>) p
      \<and> (file_matches search (cfg\<lparr>allow_hidden := True\<rparr>) p \<longleftrightarrow>
           (\<forall>r. regex_whitelist cfg = Some r \<longrightarrow> search r ''.env'')
         \<and> (\<forall>r. regex_blacklist cfg = Some r \<longrightarrow> \<not> search r ''.env'')
         \<and> (\<forall>r. regex_path_whitelist cfg = Some r \<longrightarrow> search r (str_path p))
         \<and> (\<forall>r. regex_path_blacklist cfg = Some r \<longrightarrow> \<not> search r (str_path p))))"
  by (auto simp: file_matches_def starts_with_dot_def split: option.splits)

theorem file_matches_rules_witness:
  "\<not> file_matches char_search ((default_provider [''proj''])\<lparr>allow_hidden := False\<rparr>)
       [''proj'', ''.env'']
   \<and> file_matches char_search ((default_provider [''proj''])\<lparr>allow_hidden := True\<rparr>)
       [''proj'', ''.env'']
   \<and> file_matches char_search
       ((default_provider [''proj''])\<lparr>regex_whitelist := Some CHR ''y'',
          regex_path_blacklist := Some CHR ''q''\<rparr>) [''proj'', ''a.py'']
   \<and> \<not> file_matches char_search
       ((default_provider [''proj''])\<lparr>regex_whitelist := Some CHR ''y'',
          regex_path_blacklist := Some CHR ''j''\<rparr>) [''proj'', ''a.py'']"
  using file_matches_rules[of char_search "default_provider [''proj'']" "[''proj'', ''.env'']"]
    file_matches_rules[of char_search
      "(default_provider [''proj''])\<lparr>regex_whitelist := Some CHR ''y'',
          regex_path_blacklist := Some CHR ''q''\<rparr>" "[''proj'', ''a.py'']"]
    file_matches_rules[of char_search
      "(default_provider [''proj''])\<lparr>regex_whitelist := Some CHR ''y'',
          regex_path_blacklist := Some CHR ''j''\<rparr>" "[''proj'', ''a.py'']"]
  by (simp add: default_provider_def path_name_def str_path_def starts_with_dot_def
      char_search_def)

subsection \<open>The flag \<open>skip_empty\<close>\<close>

lemma file_matches_skip_empty [simp]:
  "file_matches search (cfg\<lparr>skip_empty := b\<rparr>) p = file_matches search cfg p"
  by (simp add: file_matches_def)

lemma walk_skip_empty [simp]:
  "walk search (cfg\<lparr>skip_empty := b\<rparr>) tp es = walk search cfg tp es"
  by (induction search cfg tp es rule: walk.induct) auto

lemma files_loop_skip_empty [simp]:
  "files_loop tok (cfg\<lparr>skip_empty := b\<rparr>) fs n lim t ps = files_loop tok cfg fs n lim t ps"
  by (induction ps arbitrary: t) (simp_all split: sum.splits file_result.splits)

lemma iter_files_skip_empty:
  "iter_files tok search (cfg\<lparr>skip_empty := b\<rparr>) fs tp n lim
     = iter_files tok search cfg fs tp n lim"
  by (simp add: iter_files_def iter_file_paths_def Let_def split: option.splits sum.splits)

lemma example_run_3_6:
  "iter_files length char_search (default_provider [''proj'']) example_fs None 3 6
     = \<lparr>yielded = [(5, [''proj'', ''a.txt''], ''hello''),
                    (7, [''proj'', ''sub'', ''b.txt''], ''ab'')],
        logged = [],
        opened = [[''proj'', ''a.txt''], [''proj'', ''blank''], [''proj'', ''sub'', ''b.txt'']],
        total_tokens = 7, outcome = Returned\<rparr>"
  by code_simp

text \<open>
  Claim C9. The flag \<open>skip_empty\<close> changes nothing: with the flag set and with the flag
  cleared, and everything else the same, \<open>iter_files\<close> makes the same run (the same
  records in the same order), \<open>calculate_tokens\<close> returns the same sum and \<open>get_context\<close>
  the same string.
\<close>

theorem skip_empty_no_effect:
  "iter_files tok search (cfg\<lparr>skip_empty := True\<rparr>) fs tp n lim
     = iter_files tok search (cfg\<lparr>skip_empty := False\<rparr>) fs tp n lim
   \<and> calculate_tokens tok search (cfg\<lparr>skip_empty := True\<rparr>) fs tp
     = calculate_tokens tok search (cfg\<lparr>skip_empty := False\<rparr>) fs tp
   \<and> get_context tok search (cfg\<lparr>skip_empty := True\<rparr>) fs
     = get_context tok search (cfg\<lparr>skip_empty := False\<rparr>) fs"
  by (simp add: iter_files_skip_empty calculate_tokens_def get_context_def)

theorem skip_empty_no_effect_witness:
  "yielded (iter_files length char_search ((default_provider [''proj''])\<lparr>skip_empty := True\<rparr>)
      example_fs None 3 6)
     = [(5, [''proj'', ''a.txt''], ''hello''), (7, [''proj'', ''sub'', ''b.txt''], ''ab'')]
   \<and> yielded (iter_files length char_search
      ((default_provider [''proj''])\<lparr>skip_empty := False\<rparr>) example_fs None 3 6)
     = [(5, [''proj'', ''a.txt''], ''hello''), (7, [''proj'', ''sub'', ''b.txt''], ''ab'')]"
  using skip_empty_no_effect[of length char_search "default_provider [''proj'']" example_fs
      None 3 6]
    iter_files_skip_empty[of length char_search False "default_provider [''proj'']" example_fs
      None 3 6]
    example_run_3_6
  by simp

subsection \<open>The loop over the files\<close>

lemma read_fails_False [simp]: "\<not> read_fails n (s, False)"
proof (induction s rule: length_induct)
  case (1 s)
  show ?case
  proof (cases "file_read n (s, False)")
    case (Inl e)
    then show ?thesis by (simp add: file_read_def split: if_splits)
  next
    case (Inr x)
    obtain chunk h' where x: "x = (chunk, h')" by (cases x)
    show ?thesis
    proof (cases "chunk = []")
      case True
      with Inr x show ?thesis by (simp add: read_fails.simps[of n "(s, False)"])
    next
      case False
      from Inr x False obtain s' where h': "h' = (s', False)" "length s' < length s"
        by (auto simp: file_read_def split: if_splits)
      with 1 have "\<not> read_fails n h'" by simp
      with Inr x False show ?thesis by (simp add: read_fails.simps[of n "(s, False)"])
    qed
  qed
qed

lemma open_file_Ignore: "open_file fs Ignore p = Inr h \<Longrightarrow> \<not> read_fails n h"
  by (cases h) (auto simp: open_file_def decode_def split: option.splits node.splits)

lemma files_loop_within:
  assumes "open_file fs Ignore p = Inr h"
    and "read_chunks n h = [] \<or> int (t + tokens_of tok (read_chunks n h)) \<le> lim"
  shows "files_loop tok cfg fs n lim t (p # ps) =
     open_first p
       ((if tokens_of tok (read_chunks n h) > 0
         then yield_first (tokens_of tok (read_chunks n h), p, content_of (read_chunks n h))
         else (\<lambda>x. x))
        (files_loop tok cfg fs n lim (t + tokens_of tok (read_chunks n h)) ps))"
  using assms(1) read_loop_within[OF assms(2), where fc = "[]" and ft = 0] open_file_Ignore[OF assms(1), of n]
  by simp

lemma files_loop_exceeds:
  assumes "open_file fs Ignore p = Inr h"
    and "k < length (read_chunks n h)"
    and "k = 0 \<or> int (t + tokens_of tok (take k (read_chunks n h))) \<le> lim"
    and "int (t + tokens_of tok (take (Suc k) (read_chunks n h))) > lim"
  shows "files_loop tok cfg fs n lim t (p # ps) =
     open_first p
       \<lparr>yielded = [(t + tokens_of tok (take (Suc k) (read_chunks n h)), p,
                    content_of (take (Suc k) (read_chunks n h)))],
        logged = [], opened = [],
        total_tokens = t + tokens_of tok (take (Suc k) (read_chunks n h)),
        outcome = Returned\<rparr>"
  using assms(1) read_loop_exceeds[OF assms(2,3,4), where fc = "[]" and ft = 0]
  by simp

lemma files_loop_logged [simp]: "logged (files_loop tok cfg fs n lim t ps) = []"
proof (induction ps arbitrary: t)
  case Nil
  show ?case by simp
next
  case (Cons p ps)
  show ?case
  proof (cases "open_file fs Ignore p")
    case (Inl e)
    then show ?thesis by simp
  next
    case (Inr h)
    show ?thesis
    proof (cases "read_loop tok n lim h [] 0 t")
      case (Exceeded t' c)
      with Inr show ?thesis by simp
    next
      case (Finished ft t' c)
      with Inr Cons.IH show ?thesis by simp
    next
      case (DecodeFailed t')
      from read_loop_DecodeFailed[OF this] open_file_Ignore[OF Inr, of n]
      show ?thesis by simp
    qed
  qed
qed


lemma files_loop_Returned:
  assumes "outcome (files_loop tok cfg fs n lim t ps) = Returned" and "int t \<le> lim"
  shows "\<exists>pre p post recs h k.
      ps = pre @ p # post
    \<and> opened (files_loop tok cfg fs n lim t ps) = pre @ [p]
    \<and> yielded (files_loop tok cfg fs n lim t ps)
        = recs @ [(total_tokens (files_loop tok cfg fs n lim t ps), p,
                   content_of (take (Suc k) (read_chunks n h)))]
    \<and> open_file fs Ignore p = Inr h \<and> k < length (read_chunks n h)
    \<and> total_tokens (files_loop tok cfg fs n lim t ps)
        = t + sum_list (map fst recs) + tokens_of tok (take (Suc k) (read_chunks n h))
    \<and> int (t + sum_list (map fst recs) + tokens_of tok (take k (read_chunks n h))) \<le> lim
    \<and> int (total_tokens (files_loop tok cfg fs n lim t ps)) > lim"
  using assms
proof (induction ps arbitrary: t)
  case Nil
  then show ?case by simp
next
  case (Cons p ps)
  show ?case
  proof (cases "open_file fs Ignore p")
    case (Inl e)
    with Cons.prems show ?thesis by simp
  next
    case (Inr h)
    show ?thesis
    proof (cases "read_loop tok n lim h [] 0 t")
      case (Exceeded t' c)
      from read_loop_Exceeded[OF this] obtain k where k: "k < length (read_chunks n h)"
        "t' = t + tokens_of tok (take (Suc k) (read_chunks n h))"
        "c = [] @ content_of (take (Suc k) (read_chunks n h))" "int t' > lim"
        "k = 0 \<or> int (t + tokens_of tok (take k (read_chunks n h))) \<le> lim"
        by blast
      from k(5) Cons.prems(2)
      have before: "int (t + tokens_of tok (take k (read_chunks n h))) \<le> lim" by auto
      have run: "files_loop tok cfg fs n lim t (p # ps) =
          open_first p \<lparr>yielded = [(t', p, c)], logged = [], opened = [],
            total_tokens = t', outcome = Returned\<rparr>"
        using Inr Exceeded by simp
      let ?run = "files_loop tok cfg fs n lim t (p # ps)"
      have "p # ps = [] @ p # ps \<and> opened ?run = [] @ [p]
        \<and> yielded ?run = [] @ [(total_tokens ?run, p,
              content_of (take (Suc k) (read_chunks n h)))]
        \<and> open_file fs Ignore p = Inr h \<and> k < length (read_chunks n h)
        \<and> total_tokens ?run = t + sum_list (map fst [])
              + tokens_of tok (take (Suc k) (read_chunks n h))
        \<and> int (t + sum_list (map fst []) + tokens_of tok (take k (read_chunks n h))) \<le> lim
        \<and> int (total_tokens ?run) > lim"
        unfolding run using Inr k(1,2,3,4) before by simp
      then show ?thesis by blast
    next
      case (Finished ft t' c)
      from read_loop_Finished[OF this]
      have fin: "ft = 0 + tokens_of tok (read_chunks n h)"
        "t' = t + tokens_of tok (read_chunks n h)"
        "read_chunks n h \<noteq> [] \<longrightarrow> int t' \<le> lim"
        by blast+
      with Cons.prems(2) have t': "int t' \<le> lim" by (cases "read_chunks n h = []") simp_all
      let ?rest = "files_loop tok cfg fs n lim t' ps"
      have run: "files_loop tok cfg fs n lim t (p # ps) =
          open_first p ((if ft > 0 then yield_first (ft, p, c) else (\<lambda>x. x)) ?rest)"
        using Inr Finished by simp
      with Cons.prems(1) have "outcome ?rest = Returned" by (simp split: if_splits)
      from Cons.IH[OF this t'] obtain pre q post recs g k where rest:
        "ps = pre @ q # post" "opened ?rest = pre @ [q]"
        "yielded ?rest = recs @ [(total_tokens ?rest, q, content_of (take (Suc k) (read_chunks n g)))]"
        "open_file fs Ignore q = Inr g" "k < length (read_chunks n g)"
        "total_tokens ?rest = t' + sum_list (map fst recs) + tokens_of tok (take (Suc k) (read_chunks n g))"
        "int (t' + sum_list (map fst recs) + tokens_of tok (take k (read_chunks n g))) \<le> lim"
        "int (total_tokens ?rest) > lim"
        by blast
      let ?recs = "(if ft > 0 then [(ft, p, c)] else []) @ recs"
      have sum: "t + sum_list (map fst ?recs) = t' + sum_list (map fst recs)"
        using fin(1,2) by simp
      let ?run = "files_loop tok cfg fs n lim t (p # ps)"
      have "p # ps = (p # pre) @ q # post \<and> opened ?run = (p # pre) @ [q]
        \<and> yielded ?run = ?recs @ [(total_tokens ?run, q,
              content_of (take (Suc k) (read_chunks n g)))]
        \<and> open_file fs Ignore q = Inr g \<and> k < length (read_chunks n g)
        \<and> total_tokens ?run = t + sum_list (map fst ?recs)
              + tokens_of tok (take (Suc k) (read_chunks n g))
        \<and> int (t + sum_list (map fst ?recs) + tokens_of tok (take k (read_chunks n g))) \<le> lim
        \<and> int (total_tokens ?run) > lim"
        unfolding run sum using rest by (cases "ft > 0") simp_all
      then show ?thesis by blast
    next
      case (DecodeFailed t')
      from read_loop_DecodeFailed[OF this] open_file_Ignore[OF Inr, of n]
      show ?thesis by simp
    qed
  qed
qed

lemma files_loop_not_Returned:
  assumes "outcome (files_loop tok cfg fs n lim t ps) \<noteq> Returned" and "int t \<le> lim"
  shows "int (total_tokens (files_loop tok cfg fs n lim t ps)) \<le> lim
    \<and> total_tokens (files_loop tok cfg fs n lim t ps)
        = t + sum_list (map fst (yielded (files_loop tok cfg fs n lim t ps)))
    \<and> (outcome (files_loop tok cfg fs n lim t ps) = Exhausted
        \<longrightarrow> opened (files_loop tok cfg fs n lim t ps) = ps)"
  using assms
proof (induction ps arbitrary: t)
  case Nil
  then show ?case by simp
next
  case (Cons p ps)
  show ?case
  proof (cases "open_file fs Ignore p")
    case (Inl e)
    with Cons.prems show ?thesis by simp
  next
    case (Inr h)
    show ?thesis
    proof (cases "read_loop tok n lim h [] 0 t")
      case (Exceeded t' c)
      with Inr Cons.prems show ?thesis by simp
    next
      case (Finished ft t' c)
      from read_loop_Finished[OF this]
      have fin: "ft = 0 + tokens_of tok (read_chunks n h)"
        "t' = t + tokens_of tok (read_chunks n h)"
        "read_chunks n h \<noteq> [] \<longrightarrow> int t' \<le> lim"
        by blast+
      with Cons.prems(2) have t': "int t' \<le> lim" by (cases "read_chunks n h = []") simp_all
      let ?rest = "files_loop tok cfg fs n lim t' ps"
      have run: "files_loop tok cfg fs n lim t (p # ps) =
          open_first p ((if ft > 0 then yield_first (ft, p, c) else (\<lambda>x. x)) ?rest)"
        using Inr Finished by simp
      with Cons.prems(1) have "outcome ?rest \<noteq> Returned" by (simp split: if_splits)
      from Cons.IH[OF this t'] fin(1,2) show ?thesis
        unfolding run by (cases "ft > 0") simp_all
    next
      case (DecodeFailed t')
      from read_loop_DecodeFailed[OF this] open_file_Ignore[OF Inr, of n]
      show ?thesis by simp
    qed
  qed
qed

subsection \<open>The budget\<close>

lemma example_run_empty_dir:
  "iter_files length char_search (default_provider [''proj'']) example_fs
      (Some [''proj'', ''empty'']) 1024 (- 1)
     = \<lparr>yielded = [], logged = [], opened = [[''proj'', ''empty'', ''void'']],
        total_tokens = 0, outcome = Exhausted\<rparr>"
  by code_simp

lemma example_run_1024_10000:
  "iter_files length char_search (default_provider [''proj'']) example_fs None 1024 10000
     = \<lparr>yielded = [(5, [''proj'', ''a.txt''], ''hello''),
                    (5, [''proj'', ''sub'', ''b.txt''], ''ab cd''),
                    (2, [''proj'', ''bad.bin''], ''zz''),
                    (3, [''proj'', ''z.txt''], ''end'')],
        logged = [],
        opened = [[''proj'', ''a.txt''], [''proj'', ''blank''], [''proj'', ''sub'', ''b.txt''],
                  [''proj'', ''bad.bin''], [''proj'', ''z.txt''], [''proj'', ''empty'', ''void'']],
        total_tokens = 15, outcome = Exhausted\<rparr>"
  by code_simp

lemma example_run_strict_flag:
  "iter_files length char_search ((default_provider [''proj''])\<lparr>skip_unreadable := False\<rparr>)
      example_fs None 1024 10000
     = \<lparr>yielded = [(5, [''proj'', ''a.txt''], ''hello''),
                    (5, [''proj'', ''sub'', ''b.txt''], ''ab cd''),
                    (2, [''proj'', ''bad.bin''], ''zz''),
                    (3, [''proj'', ''z.txt''], ''end'')],
        logged = [],
        opened = [[''proj'', ''a.txt''], [''proj'', ''blank''], [''proj'', ''sub'', ''b.txt''],
                  [''proj'', ''bad.bin''], [''proj'', ''z.txt''], [''proj'', ''empty'', ''void'']],
        total_tokens = 15, outcome = Exhausted\<rparr>"
  by code_simp

text \<open>
  Claim C1, amended to token limits that are not negative. The generator keeps a running
  total. Either it ends by the \<open>return\<close> of line 100: then the last record is (running
  total, path, content of the chunks read so far from that file), the total is the sum of
  the token counts of the records before it plus the tokens of these chunks, it exceeds the
  limit while it did not before the last chunk, and the file of the record is the last one
  opened. Or it ends otherwise (the paths run out, or an error of listing or opening
  leaves the generator): then the total is at most the limit and is the sum of the token
  counts of the records, and when the paths ran out every path was opened.
\<close>

theorem iter_files_budget:
  fixes tok :: "string \<Rightarrow> nat" and search :: "'p \<Rightarrow> string \<Rightarrow> bool" and cfg :: "'p provider"
    and fs :: node and tp :: "path option" and n lim :: int
  assumes "0 \<le> lim"
  defines "r \<equiv> iter_files tok search cfg fs tp n lim"
  shows "(outcome r = Returned
      \<and> (\<exists>pre p post recs h k.
            iter_file_paths search cfg fs tp = Inr (pre @ p # post)
          \<and> opened r = pre @ [p]
          \<and> yielded r = recs @ [(total_tokens r, p, content_of (take (Suc k) (read_chunks n h)))]
          \<and> open_file fs Ignore p = Inr h \<and> k < length (read_chunks n h)
          \<and> total_tokens r
              = sum_list (map fst recs) + tokens_of tok (take (Suc k) (read_chunks n h))
          \<and> int (sum_list (map fst recs) + tokens_of tok (take k (read_chunks n h))) \<le> lim
          \<and> int (total_tokens r) > lim))
    \<or> (outcome r \<noteq> Returned
      \<and> int (total_tokens r) \<le> lim
      \<and> total_tokens r = sum_list (map fst (yielded r))
      \<and> (outcome r = Exhausted \<longrightarrow> iter_file_paths search cfg fs tp = Inr (opened r)))"
proof (cases "iter_file_paths search cfg fs tp")
  case (Inl e)
  then show ?thesis using assms by (simp add: iter_files_def)
next
  case (Inr ps)
  then have r: "r = files_loop tok cfg fs n lim 0 ps" by (simp add: r_def iter_files_def)
  have zero: "int 0 \<le> lim" using assms(1) by simp
  show ?thesis
  proof (cases "outcome r = Returned")
    case True
    from files_loop_Returned[OF True[unfolded r] zero] Inr True show ?thesis
      unfolding r by simp
  next
    case False
    from files_loop_not_Returned[OF False[unfolded r] zero] Inr False show ?thesis
      unfolding r by simp
  qed
qed

theorem iter_files_budget_witness:
  "(0::int) \<le> 6
   \<and> (\<exists>pre p post recs h k.
        iter_file_paths char_search (default_provider [''proj'']) example_fs None
          = Inr (pre @ p # post)
      \<and> opened (iter_files length char_search (default_provider [''proj'']) example_fs None 3 6)
          = pre @ [p]
      \<and> yielded (iter_files length char_search (default_provider [''proj'']) example_fs None 3 6)
          = recs @ [(7, p, content_of (take (Suc k) (read_chunks 3 h)))]
      \<and> open_file example_fs Ignore p = Inr h \<and> k < length (read_chunks 3 h)
      \<and> 7 = sum_list (map fst recs) + tokens_of length (take (Suc k) (read_chunks 3 h))
      \<and> int (sum_list (map fst recs) + tokens_of length (take k (read_chunks 3 h))) \<le> 6)
   \<and> (0::int) \<le> 10000
   \<and> int (total_tokens (iter_files length char_search (default_provider [''proj''])
        example_fs None 1024 10000)) \<le> 10000
   \<and> iter_file_paths char_search (default_provider [''proj'']) example_fs None
       = Inr (opened (iter_files length char_search (default_provider [''proj''])
           example_fs None 1024 10000))"
  using iter_files_budget[of 6 length char_search "default_provider [''proj'']" example_fs None 3]
    iter_files_budget[of 10000 length char_search "default_provider [''proj'']" example_fs None
      1024]
    example_run_3_6 example_run_1024_10000
  by simp

text \<open>
  With the limit \<open>-1\<close> and a directory whose only file is empty no chunk is processed: the
  traversal completes without a record, and its total 0 is above the limit.
\<close>

theorem negative_limit_counterexample:
  "outcome (iter_files length char_search (default_provider [''proj'']) example_fs
      (Some [''proj'', ''empty'']) 1024 (- 1)) = Exhausted
   \<and> yielded (iter_files length char_search (default_provider [''proj'']) example_fs
      (Some [''proj'', ''empty'']) 1024 (- 1)) = []
   \<and> int (total_tokens (iter_files length char_search (default_provider [''proj'']) example_fs
      (Some [''proj'', ''empty'']) 1024 (- 1))) > - 1"
  by (simp add: example_run_empty_dir)

subsection \<open>Files read to their end\<close>

text \<open>
  Claim C8. When a file is opened and read to its end without the running total exceeding
  the limit after any of its chunks, the loop yields the record (tokens of the file, path,
  content) exactly when the tokens of the file are positive, and in both cases goes on with
  the next path from the new running total: a file of zero tokens leaves no record, no log
  entry and no error.
\<close>
theorem zero_token_files_skipped:
  assumes "open_file fs Ignore p = Inr h"
    and "read_chunks n h = [] \<or> int (t + tokens_of tok (read_chunks n h)) \<le> lim"
  shows "files_loop tok cfg fs n lim t (p # ps) =
     open_first p
       ((if tokens_of tok (read_chunks n h) > 0
         then yield_first (tokens_of tok (read_chunks n h), p, content_of (read_chunks n h))
         else (\<lambda>x. x))
        (files_loop tok cfg fs n lim (t + tokens_of tok (read_chunks n h)) ps))"
  using assms by (rule files_loop_within)

lemma example_open_blank:
  "open_file example_fs Ignore [''proj'', ''blank''] = Inr (''  '', False)"
  by code_simp

lemma example_open_a:
  "open_file example_fs Ignore [''proj'', ''a.txt''] = Inr (''hello'', False)"
  by code_simp

lemma example_chunks_blank: "read_chunks 1024 (''  '', False) = [''  '']"
  by code_simp

lemma example_chunks_a: "read_chunks 1024 (''hello'', False) = [''hello'']"
  by code_simp

lemma strip_blank: "strip ''  '' = []"
  by code_simp

lemma strip_hello: "strip ''hello'' = ''hello''"
  by code_simp

theorem zero_token_files_skipped_witness:
  "open_file example_fs Ignore [''proj'', ''blank''] = Inr (''  '', False)
   \<and> tokens_of length (read_chunks 1024 (''  '', False)) = 0
   \<and> files_loop length (default_provider [''proj'']) example_fs 1024 10000 0
        [[''proj'', ''blank'']]
      = \<lparr>yielded = [], logged = [], opened = [[''proj'', ''blank'']], total_tokens = 0,
         outcome = Exhausted\<rparr>
   \<and> open_file example_fs Ignore [''proj'', ''a.txt''] = Inr (''hello'', False)
   \<and> tokens_of length (read_chunks 1024 (''hello'', False)) = 5
   \<and> files_loop length (default_provider [''proj'']) example_fs 1024 10000 0
        [[''proj'', ''a.txt'']]
      = \<lparr>yielded = [(5, [''proj'', ''a.txt''], ''hello'')], logged = [],
         opened = [[''proj'', ''a.txt'']], total_tokens = 5, outcome = Exhausted\<rparr>"
proof -
  have t1: "tokens_of length (read_chunks 1024 (''  '', False)) = 0"
    by (simp add: example_chunks_blank strip_blank)
  have t2: "tokens_of length (read_chunks 1024 (''hello'', False)) = 5"
    by (simp add: example_chunks_a strip_hello)
  have c2: "content_of (read_chunks 1024 (''hello'', False)) = ''hello''"
    by (simp add: example_chunks_a strip_hello)
  have b1: "read_chunks 1024 (''  '', False) = []
      \<or> int (0 + tokens_of length (read_chunks 1024 (''  '', False))) \<le> 10000"
    by (simp add: t1)
  have b2: "read_chunks 1024 (''hello'', False) = []
      \<or> int (0 + tokens_of length (read_chunks 1024 (''hello'', False))) \<le> 10000"
    by (simp add: t2)
  from zero_token_files_skipped[OF example_open_blank b1, of "default_provider [''proj'']" "[]"]
    zero_token_files_skipped[OF example_open_a b2, of "default_provider [''proj'']" "[]"]
  show ?thesis
    by (simp add: example_open_blank example_open_a t1 t2 c2 open_first_def yield_first_def
        del: files_loop.simps(2))
qed

subsection \<open>Files with undecodable bytes\<close>

lemma files_loop_Raised:
  "outcome (files_loop tok cfg fs n lim t ps) = Raised e \<Longrightarrow> e \<noteq> UnicodeDecodeError"
proof (induction ps arbitrary: t)
  case Nil
  then show ?case by simp
next
  case (Cons p ps)
  show ?case
  proof (cases "open_file fs Ignore p")
    case (Inl e')
    with Cons.prems show ?thesis
      by (auto simp: open_file_def split: option.splits node.splits)
  next
    case (Inr h)
    show ?thesis
    proof (cases "read_loop tok n lim h [] 0 t")
      case (Exceeded t' c)
      with Inr Cons.prems show ?thesis by simp
    next
      case (Finished ft t' c)
      with Inr Cons.prems Cons.IH[of t'] show ?thesis by (simp split: if_splits)
    next
      case (DecodeFailed t')
      from read_loop_DecodeFailed[OF this] open_file_Ignore[OF Inr, of n]
      show ?thesis by simp
    qed
  qed
qed

text \<open>
  Claim C3 does not hold of the code. Every file is opened with \<open>errors='ignore'\<close>, so no
  read raises \<open>UnicodeDecodeError\<close> and the handler of lines 106 to 110 is never reached:
  no run logs a path, and no run ends in that error. In the example the file \<open>bad.bin\<close>
  starts with a byte that is not valid UTF-8; with \<open>skip_unreadable\<close> set it is not
  omitted but yielded with the byte dropped, and with \<open>skip_unreadable\<close> cleared the run
  is the same and nothing propagates.
\<close>
theorem decode_handler_unreachable:
  "logged (iter_files tok search cfg fs tp n lim) = []
   \<and> outcome (iter_files tok search cfg fs tp n lim) \<noteq> Raised UnicodeDecodeError
   \<and> iter_files length char_search ((default_provider [''proj''])\<lparr>skip_unreadable := True\<rparr>)
        example_fs None 1024 10000
      = \<lparr>yielded = [(5, [''proj'', ''a.txt''], ''hello''),
                     (5, [''proj'', ''sub'', ''b.txt''], ''ab cd''),
                     (2, [''proj'', ''bad.bin''], ''zz''),
                     (3, [''proj'', ''z.txt''], ''end'')],
         logged = [],
         opened = [[''proj'', ''a.txt''], [''proj'', ''blank''], [''proj'', ''sub'', ''b.txt''],
                   [''proj'', ''bad.bin''], [''proj'', ''z.txt''],
                   [''proj'', ''empty'', ''void'']],
         total_tokens = 15, outcome = Exhausted\<rparr>
   \<and> iter_files length char_search ((default_provider [''proj''])\<lparr>skip_unreadable := False\<rparr>)
        example_fs None 1024 10000
      = iter_files length char_search ((default_provider [''proj''])\<lparr>skip_unreadable := True\<rparr>)
        example_fs None 1024 10000"
proof -
  have "logged (iter_files tok search cfg fs tp n lim) = []"
    by (simp add: iter_files_def split: sum.splits)
  moreover have "outcome (iter_files tok search cfg fs tp n lim) \<noteq> Raised UnicodeDecodeError"
    using files_loop_Raised[of tok cfg fs n lim 0 _ UnicodeDecodeError]
    by (auto simp: iter_files_def iter_file_paths_def iterdir_def Let_def
        split: sum.splits option.splits node.splits)
  moreover have "(default_provider [''proj''] :: char provider)\<lparr>skip_unreadable := True\<rparr>
      = default_provider [''proj'']"
    by (simp add: default_provider_def)
  ultimately show ?thesis
    using example_run_1024_10000 example_run_strict_flag by simp
qed

subsection \<open>The token limit 0\<close>

lemma foldr_open_first [simp]:
  "yielded (foldr open_first pre x) = yielded x"
  "logged (foldr open_first pre x) = logged x"
  "opened (foldr open_first pre x) = pre @ opened x"
  "total_tokens (foldr open_first pre x) = total_tokens x"
  "outcome (foldr open_first pre x) = outcome x"
  by (induction pre) simp_all

lemma files_loop_zero_prefix:
  assumes "\<forall>q \<in> set pre. \<exists>g. open_file fs Ignore q = Inr g
      \<and> tokens_of tok (read_chunks n g) = 0"
    and "int t \<le> lim"
  shows "files_loop tok cfg fs n lim t (pre @ rest)
     = foldr open_first pre (files_loop tok cfg fs n lim t rest)"
  using assms(1)
proof (induction pre)
  case Nil
  show ?case by simp
next
  case (Cons q pre)
  then obtain g where g: "open_file fs Ignore q = Inr g" "tokens_of tok (read_chunks n g) = 0"
    by auto
  from g(2) assms(2)
  have "read_chunks n g = [] \<or> int (t + tokens_of tok (read_chunks n g)) \<le> lim" by simp
  from files_loop_within[OF g(1) this, of cfg "pre @ rest"] g(2) Cons show ?case
    by (simp del: files_loop.simps(2))
qed

lemma first_positive_chunk:
  "tokens_of tok cs > 0 \<Longrightarrow>
     \<exists>k < length cs. tok (strip (cs ! k)) > 0 \<and> tokens_of tok (take k cs) = 0"
proof (induction cs)
  case Nil
  then show ?case by simp
next
  case (Cons c cs)
  show ?case
  proof (cases "tok (strip c) > 0")
    case True
    then show ?thesis by (intro exI[of _ 0]) simp
  next
    case False
    with Cons.prems have "tokens_of tok cs > 0" by simp
    from Cons.IH[OF this] obtain k where "k < length cs" "tok (strip (cs ! k)) > 0"
      "tokens_of tok (take k cs) = 0" by blast
    with False show ?thesis by (intro exI[of _ "Suc k"]) simp
  qed
qed

lemma tokens_of_take_Suc:
  "k < length cs \<Longrightarrow> tokens_of tok (take (Suc k) cs) = tokens_of tok (take k cs) + tok (strip (cs ! k))"
  by (simp add: take_Suc_conv_app_nth)

text \<open>
  Claim C7, amended. With the token limit 0, when the matching files that come before a
  matching file \<open>p\<close> in the order of the traversal all have zero tokens and \<open>p\<close> has a
  chunk of positive token count, the run yields exactly one record, for \<open>p\<close>: its token
  count is that of the first such chunk and is positive, its content is that of the chunks
  of \<open>p\<close> up to that chunk, the files before \<open>p\<close> and \<open>p\<close> are the only files opened, and
  the generator returns. When \<open>p\<close> is the first matching file it is the only file opened.
\<close>

theorem zero_limit_first_record:
  assumes "iter_file_paths search cfg fs tp = Inr (pre @ p # post)"
    and "\<forall>q \<in> set pre. \<exists>g. open_file fs Ignore q = Inr g
      \<and> tokens_of tok (read_chunks n g) = 0"
    and "open_file fs Ignore p = Inr h"
    and "tokens_of tok (read_chunks n h) > 0"
  shows "\<exists>k < length (read_chunks n h).
      tok (strip (read_chunks n h ! k)) > 0
    \<and> tokens_of tok (take k (read_chunks n h)) = 0
    \<and> iter_files tok search cfg fs tp n 0
        = \<lparr>yielded = [(tok (strip (read_chunks n h ! k)), p,
                       content_of (take (Suc k) (read_chunks n h)))],
           logged = [], opened = pre @ [p],
           total_tokens = tok (strip (read_chunks n h ! k)), outcome = Returned\<rparr>"
proof -
  from first_positive_chunk[OF assms(4)] obtain k where k: "k < length (read_chunks n h)"
    "tok (strip (read_chunks n h ! k)) > 0" "tokens_of tok (take k (read_chunks n h)) = 0"
    by blast
  have suc: "tokens_of tok (take (Suc k) (read_chunks n h)) = tok (strip (read_chunks n h ! k))"
    using tokens_of_take_Suc[OF k(1), of tok] k(3) by simp
  have before: "k = 0 \<or> int (0 + tokens_of tok (take k (read_chunks n h))) \<le> 0"
    using k(3) by simp
  have after: "int (0 + tokens_of tok (take (Suc k) (read_chunks n h))) > 0"
    using suc k(2) by simp
  have "iter_files tok search cfg fs tp n 0
      = foldr open_first pre (files_loop tok cfg fs n 0 0 (p # post))"
    using assms(1) files_loop_zero_prefix[OF assms(2), of 0 0 cfg "p # post"]
    by (simp add: iter_files_def del: files_loop.simps(2))
  also have "files_loop tok cfg fs n 0 0 (p # post)
      = open_first p
          \<lparr>yielded = [(tok (strip (read_chunks n h ! k)), p,
                       content_of (take (Suc k) (read_chunks n h)))],
           logged = [], opened = [],
           total_tokens = tok (strip (read_chunks n h ! k)), outcome = Returned\<rparr>"
    using files_loop_exceeds[OF assms(3) k(1) before after, of cfg post] suc
    by (simp del: files_loop.simps(2))
  finally have "iter_files tok search cfg fs tp n 0
        = \<lparr>yielded = [(tok (strip (read_chunks n h ! k)), p,
                       content_of (take (Suc k) (read_chunks n h)))],
           logged = [], opened = pre @ [p],
           total_tokens = tok (strip (read_chunks n h ! k)), outcome = Returned\<rparr>"
    by (intro run.equality) simp_all
  with k show ?thesis by blast
qed

lemma example_paths_b:
  "iter_file_paths char_search ((default_provider [''proj''])\<lparr>regex_whitelist := Some CHR ''b''\<rparr>)
      example_fs None
     = Inr ([[''proj'', ''blank'']] @ [''proj'', ''sub'', ''b.txt''] # [[''proj'', ''bad.bin'']])"
  by code_simp

lemma example_open_b:
  "open_file example_fs Ignore [''proj'', ''sub'', ''b.txt''] = Inr (''ab cd'', False)"
  by code_simp

lemma example_tokens_blank_3: "tokens_of length (read_chunks 3 (''  '', False)) = 0"
  by code_simp

lemma example_tokens_b_3: "tokens_of length (read_chunks 3 (''ab cd'', False)) = 4"
  by code_simp

theorem zero_limit_first_record_witness:
  "iter_file_paths char_search ((default_provider [''proj''])\<lparr>regex_whitelist := Some CHR ''b''\<rparr>)
      example_fs None
     = Inr ([[''proj'', ''blank'']] @ [''proj'', ''sub'', ''b.txt''] # [[''proj'', ''bad.bin'']])
   \<and> open_file example_fs Ignore [''proj'', ''blank''] = Inr (''  '', False)
   \<and> tokens_of length (read_chunks 3 (''  '', False)) = 0
   \<and> open_file example_fs Ignore [''proj'', ''sub'', ''b.txt''] = Inr (''ab cd'', False)
   \<and> tokens_of length (read_chunks 3 (''ab cd'', False)) > 0
   \<and> (\<exists>k < length (read_chunks 3 (''ab cd'', False)).
        length (strip (read_chunks 3 (''ab cd'', False) ! k)) > 0
      \<and> tokens_of length (take k (read_chunks 3 (''ab cd'', False))) = 0
      \<and> iter_files length char_search
           ((default_provider [''proj''])\<lparr>regex_whitelist := Some CHR ''b''\<rparr>) example_fs None 3 0
          = \<lparr>yielded = [(length (strip (read_chunks 3 (''ab cd'', False) ! k)),
                         [''proj'', ''sub'', ''b.txt''],
                         content_of (take (Suc k) (read_chunks 3 (''ab cd'', False))))],
             logged = [], opened = [[''proj'', ''blank'']] @ [[''proj'', ''sub'', ''b.txt'']],
             total_tokens = length (strip (read_chunks 3 (''ab cd'', False) ! k)),
             outcome = Returned\<rparr>)"
proof -
  have zero: "\<forall>q \<in> set [[''proj'', ''blank'']]. \<exists>g. open_file example_fs Ignore q = Inr g
      \<and> tokens_of length (read_chunks 3 g) = 0"
    by (simp add: example_open_blank example_tokens_blank_3)
  have pos: "tokens_of length (read_chunks 3 (''ab cd'', False)) > 0"
    by (simp add: example_tokens_b_3)
  from zero_limit_first_record[OF example_paths_b zero example_open_b pos]
    example_paths_b example_open_blank example_tokens_blank_3 example_open_b pos
  show ?thesis by blast
qed

text \<open>
  A matching file that is not empty need not give a record: a file of two blanks, alone in
  the traversal, has zero tokens and the run with the limit 0 yields nothing. And the record
  need not be of the first file processed: after the file of blanks the file \<open>b.txt\<close> is
  opened as the second file and gives the record.
\<close>

theorem zero_limit_counterexample:
  "iter_file_paths char_search ((default_provider [''proj''])\<lparr>regex_whitelist := Some CHR ''k''\<rparr>)
      example_fs None
     = Inr [[''proj'', ''blank'']]
   \<and> open_file example_fs Ignore [''proj'', ''blank''] = Inr (''  '', False)
   \<and> iter_files length char_search
        ((default_provider [''proj''])\<lparr>regex_whitelist := Some CHR ''k''\<rparr>) example_fs None 1024 0
      = \<lparr>yielded = [], logged = [], opened = [[''proj'', ''blank'']], total_tokens = 0,
         outcome = Exhausted\<rparr>
   \<and> iter_files length char_search
        ((default_provider [''proj''])\<lparr>regex_whitelist := Some CHR ''b''\<rparr>) example_fs None 3 0
      = \<lparr>yielded = [(2, [''proj'', ''sub'', ''b.txt''], ''ab'')], logged = [],
         opened = [[''proj'', ''blank''], [''proj'', ''sub'', ''b.txt'']],
         total_tokens = 2, outcome = Returned\<rparr>"
  by code_simp

subsection \<open>The token sum\<close>

lemma lookup_append:
  "lookup fs (p @ q) = (case lookup fs p of None \<Rightarrow> None | Some x \<Rightarrow> lookup x q)"
  by (induction fs p rule: lookup.induct) (simp_all split: option.splits)

lemma iterdir_lookup: "iterdir fs d = Inr es \<Longrightarrow> lookup fs d = Some (Dir es)"
  by (auto simp: iterdir_def split: option.splits node.splits)

lemma open_file_entry:
  "iterdir fs d = Inr es \<Longrightarrow> map_of es name = Some (File items) \<Longrightarrow>
     open_file fs mode (d @ [name]) = Inr (decode mode items)"
  by (simp add: open_file_def lookup_append iterdir_lookup)

lemma files_loop_two_within:
  assumes a: "open_file fs Ignore p = Inr g" and b: "open_file fs Ignore q = Inr h"
    and le: "int (tokens_of tok (read_chunks n g) + tokens_of tok (read_chunks n h)) \<le> lim"
  shows "outcome (files_loop tok cfg fs n lim 0 [p, q]) = Exhausted
    \<and> sum_list (map fst (yielded (files_loop tok cfg fs n lim 0 [p, q])))
        = tokens_of tok (read_chunks n g) + tokens_of tok (read_chunks n h)"
proof -
  have 1: "read_chunks n g = [] \<or> int (0 + tokens_of tok (read_chunks n g)) \<le> lim"
    using le by simp
  have 2: "read_chunks n h = []
      \<or> int ((0 + tokens_of tok (read_chunks n g)) + tokens_of tok (read_chunks n h)) \<le> lim"
    using le by simp
  show ?thesis
    unfolding files_loop_within[OF a 1] files_loop_within[OF b 2] by simp
qed

lemma read_chunks_single:
  assumes "s \<noteq> []" and "int (length s) \<le> n"
  shows "read_chunks n (s, False) = [s]"
proof -
  have e: "read_chunks n ([], False) = []"
    using assms by (simp add: read_chunks.simps[of n "([], False)"] file_read_def)
  show ?thesis
    using assms e by (auto simp: read_chunks.simps[of n "(s, False)"] file_read_def)
qed

text \<open>
  Claim C5, amended. \<open>calculate_tokens\<close> is the sum of the token counts of the records of
  the run of \<open>iter_files\<close> with the default chunk size and token limit (or the error that
  run raises), so it is bounded by the budget stop. For a directory of two matching files
  whose counts together stay within the default limit it is the sum of the two counts,
  where the count of a file is the one the read loop keeps: the sum of the tokenizer's
  counts of the chunks of 1024 characters, each stripped of the white space at its ends.
  For a file that is not empty and fits in one chunk this is the tokenizer's count of the
  stripped text.
\<close>

theorem calculate_tokens_sum:
  fixes tok :: "string \<Rightarrow> nat" and search :: "'p \<Rightarrow> string \<Rightarrow> bool" and cfg :: "'p provider"
    and fs :: node and tp :: "path option"
  defines "r \<equiv> iter_files tok search cfg fs tp default_chunk_size default_token_limit"
    and "d \<equiv> (case tp of None \<Rightarrow> directory cfg | Some q \<Rightarrow> q)"
  shows "calculate_tokens tok search cfg fs tp
       = (case outcome r of
            Raised e \<Rightarrow> Inl e
          | Exhausted \<Rightarrow> Inr (sum_list (map fst (yielded r)))
          | Returned \<Rightarrow> Inr (sum_list (map fst (yielded r))))
    \<and> (iterdir fs d = Inr [(a, File ia), (b, File ib)] \<and> a \<noteq> b
        \<and> file_matches search cfg (d @ [a]) \<and> file_matches search cfg (d @ [b])
        \<and> int (tokens_of tok (read_chunks default_chunk_size (decode Ignore ia))
               + tokens_of tok (read_chunks default_chunk_size (decode Ignore ib)))
            \<le> default_token_limit
       \<longrightarrow> calculate_tokens tok search cfg fs tp
            = Inr (tokens_of tok (read_chunks default_chunk_size (decode Ignore ia))
                   + tokens_of tok (read_chunks default_chunk_size (decode Ignore ib))))
    \<and> (s \<noteq> [] \<and> int (length s) \<le> default_chunk_size
       \<longrightarrow> tokens_of tok (read_chunks default_chunk_size (decode Ignore (map Some s)))
            = tok (strip s))"
proof (intro conjI impI)
  show "calculate_tokens tok search cfg fs tp
       = (case outcome r of
            Raised e \<Rightarrow> Inl e
          | Exhausted \<Rightarrow> Inr (sum_list (map fst (yielded r)))
          | Returned \<Rightarrow> Inr (sum_list (map fst (yielded r))))"
    unfolding calculate_tokens_def r_def Let_def by (rule refl)
next
  assume h: "iterdir fs d = Inr [(a, File ia), (b, File ib)] \<and> a \<noteq> b
        \<and> file_matches search cfg (d @ [a]) \<and> file_matches search cfg (d @ [b])
        \<and> int (tokens_of tok (read_chunks default_chunk_size (decode Ignore ia))
               + tokens_of tok (read_chunks default_chunk_size (decode Ignore ib)))
            \<le> default_token_limit"
  then have paths: "iter_file_paths search cfg fs tp = Inr [d @ [a], d @ [b]]"
    by (simp add: iter_file_paths_def d_def Let_def)
  from h have oa: "open_file fs Ignore (d @ [a]) = Inr (decode Ignore ia)"
    by (intro open_file_entry[where es = "[(a, File ia), (b, File ib)]"]) simp_all
  from h have ob: "open_file fs Ignore (d @ [b]) = Inr (decode Ignore ib)"
    by (intro open_file_entry[where es = "[(a, File ia), (b, File ib)]"]) auto
  from h files_loop_two_within[OF oa ob, of tok default_chunk_size default_token_limit cfg]
  show "calculate_tokens tok search cfg fs tp
            = Inr (tokens_of tok (read_chunks default_chunk_size (decode Ignore ia))
                   + tokens_of tok (read_chunks default_chunk_size (decode Ignore ib)))"
    by (simp add: calculate_tokens_def iter_files_def paths Let_def del: files_loop.simps)
next
  assume "s \<noteq> [] \<and> int (length s) \<le> default_chunk_size"
  then show "tokens_of tok (read_chunks default_chunk_size (decode Ignore (map Some s)))
            = tok (strip s)"
    by (simp add: decode_def map_filter_map_filter read_chunks_single List.map_filter_def comp_def)
qed


lemma example_pair_dir:
  "iterdir example_pair [''docs'']
     = Inr [(''x.txt'', File (map Some ''one two'')), (''y.txt'', File (map Some '' three ''))]"
  by (simp add: iterdir_def example_pair_def text_file_def)

lemma example_pair_matches:
  "file_matches char_search (default_provider [''docs'']) ([''docs''] @ [''x.txt''])"
  "file_matches char_search (default_provider [''docs'']) ([''docs''] @ [''y.txt''])"
  by code_simp+

lemma example_pair_tokens:
  "tokens_of length (read_chunks default_chunk_size (decode Ignore (map Some ''one two''))) = 7"
  "tokens_of length (read_chunks default_chunk_size (decode Ignore (map Some '' three ''))) = 5"
  "strip '' three '' = ''three''"
  by code_simp+

theorem calculate_tokens_sum_witness:
  "iterdir example_pair [''docs'']
     = Inr [(''x.txt'', File (map Some ''one two'')), (''y.txt'', File (map Some '' three ''))]
   \<and> file_matches char_search (default_provider [''docs'']) ([''docs''] @ [''x.txt''])
   \<and> file_matches char_search (default_provider [''docs'']) ([''docs''] @ [''y.txt''])
   \<and> int (tokens_of length (read_chunks default_chunk_size (decode Ignore (map Some ''one two'')))
          + tokens_of length (read_chunks default_chunk_size
              (decode Ignore (map Some '' three '')))) \<le> default_token_limit
   \<and> calculate_tokens length char_search (default_provider [''docs'']) example_pair None
       = Inr 12
   \<and> int (length '' three '') \<le> default_chunk_size
   \<and> tokens_of length (read_chunks default_chunk_size (decode Ignore (map Some '' three '')))
       = length ''three''"
proof -
  have d: "(case None :: path option of None \<Rightarrow> directory (default_provider [''docs''] :: char provider)
      | Some q \<Rightarrow> q) = [''docs'']"
    by (simp add: default_provider_def)
  have le: "int (7 + 5) \<le> default_token_limit"
    by (simp add: default_token_limit_def)
  have len: "int (length '' three '') \<le> default_chunk_size"
    by (simp add: default_chunk_size_def)
  note t = calculate_tokens_sum[where tok = length and search = char_search
      and cfg = "default_provider [''docs'']" and fs = example_pair and tp = None
      and a = "''x.txt''" and ia = "map Some ''one two''"
      and b = "''y.txt''" and ib = "map Some '' three ''" and s = "'' three ''",
      unfolded d example_pair_tokens]
  from t[THEN conjunct2, THEN conjunct1] example_pair_dir example_pair_matches le
  have sum: "calculate_tokens length char_search (default_provider [''docs'']) example_pair None
      = Inr (7 + 5)"
    by simp
  from t[THEN conjunct2, THEN conjunct2] len have one: "(5::nat) = length ''three''" by simp
  show ?thesis
    unfolding example_pair_tokens
    using sum one example_pair_dir example_pair_matches le len by simp
qed

text \<open>
  The count is not that of the tokenizer on the text of each file. With one token per
  character the two files of the example have 7 tokens each and stay far below the limit,
  but the second loses its two blanks to the strip and \<open>calculate_tokens\<close> returns 12.
\<close>

theorem tokenizer_on_text_counterexample:
  "iterdir example_pair [''docs'']
     = Inr [(''x.txt'', text_file ''one two''), (''y.txt'', text_file '' three '')]
   \<and> file_matches char_search (default_provider [''docs'']) [''docs'', ''x.txt'']
   \<and> file_matches char_search (default_provider [''docs'']) [''docs'', ''y.txt'']
   \<and> length ''one two'' + length '' three '' = 14
   \<and> int (length ''one two'' + length '' three '') \<le> default_token_limit
   \<and> calculate_tokens length char_search (default_provider [''docs'']) example_pair None
       = Inr 12
   \<and> calculate_tokens length char_search (default_provider [''docs'']) example_pair None
       \<noteq> Inr (length ''one two'' + length '' three '')"
proof -
  have dir: "iterdir example_pair [''docs'']
     = Inr [(''x.txt'', text_file ''one two''), (''y.txt'', text_file '' three '')]"
    by (simp add: iterdir_def example_pair_def)
  have m: "file_matches char_search (default_provider [''docs'']) [''docs'', ''x.txt'']"
    "file_matches char_search (default_provider [''docs'']) [''docs'', ''y.txt'']"
    by code_simp+
  have v: "calculate_tokens length char_search (default_provider [''docs'']) example_pair None
       = Inr 12"
    by code_simp
  have lim: "int (length ''one two'' + length '' three '') \<le> default_token_limit"
    by (simp add: default_token_limit_def)
  show ?thesis
    using dir m lim by (simp add: v)
qed

subsection \<open>The context string\<close>




lemma relative_to_append [simp]: "relative_to (d @ rel) d = Inr rel"
  by (induction d) simp_all



lemma decode_Ignore_text [simp]: "decode Ignore (map Some s) = (s, False)"
  by (simp add: decode_def List.map_filter_def comp_def)







subsection \<open>Chunks and content\<close>
















subsection \<open>The walker\<close>

lemma file_matches_no_filters:
  assumes "regex_whitelist cfg = None" "regex_blacklist cfg = None"
    "regex_path_whitelist cfg = None" "regex_path_blacklist cfg = None"
  shows "file_matches search cfg p \<longleftrightarrow> allow_hidden cfg \<or> \<not> starts_with_dot (path_name p)"
  using assms by (simp add: file_matches_def)

lemma reachable_file_mono:
  assumes "reachable_file cfg tp es p" and "set es \<subseteq> set es'"
  shows "reachable_file cfg tp es' p"
  using assms(1)
proof cases
  case (here name items)
  with assms(2) show ?thesis by (auto intro: reachable_file.here)
next
  case (below name sub)
  with assms(2) show ?thesis by (auto intro: reachable_file.below)
qed

lemma reachable_file_Cons:
  "reachable_file cfg tp es p \<Longrightarrow> reachable_file cfg tp (e # es) p"
  by (erule reachable_file_mono) auto

lemma walk_sound:
  "p \<in> set (walk search cfg tp es) \<Longrightarrow> reachable_file cfg tp es p \<and> file_matches search cfg p"
proof (induction search cfg tp es rule: walk.induct)
  case (1 search cfg tp)
  then show ?case by simp
next
  case (2 search cfg tp name items es)
  from "2.prems" consider "p = tp @ [name]" "file_matches search cfg (tp @ [name])"
    | "p \<in> set (walk search cfg tp es)"
    by (auto split: if_splits)
  then show ?case
  proof cases
    case 1
    then show ?thesis by (auto intro: reachable_file.here[of name items])
  next
    case 2
    from "2.IH"[OF this] show ?thesis
      by (auto intro: reachable_file_Cons)
  qed
next
  case (3 search cfg tp name sub es)
  from "3.prems" consider
      "recursive cfg" "allow_hidden_subdirectories cfg \<or> \<not> starts_with_dot name"
      "p \<in> set (walk search cfg (tp @ [name]) sub)"
    | "p \<in> set (walk search cfg tp es)"
    by (auto split: if_splits)
  then show ?case
  proof cases
    case 1
    with "3.IH"(1) have "reachable_file cfg (tp @ [name]) sub p \<and> file_matches search cfg p"
      by simp
    with 1 show ?thesis by (auto intro: reachable_file.below[of name sub])
  next
    case 2
    from "3.IH"(2)[OF this] show ?thesis
      by (auto intro: reachable_file_Cons)
  qed
next
  case (4 search cfg tp name es)
  from "4.IH"[OF "4.prems"[simplified]] show ?case
    by (auto intro: reachable_file_Cons)
qed


lemma walk_file_entry:
  "(name, File items) \<in> set es \<Longrightarrow> file_matches search cfg (tp @ [name]) \<Longrightarrow>
     tp @ [name] \<in> set (walk search cfg tp es)"
proof (induction es)
  case Nil
  then show ?case by simp
next
  case (Cons e es)
  obtain n' x where e: "e = (n', x)" by (cases e)
  from Cons show ?case unfolding e by (cases x) auto
qed

lemma walk_dir_entry:
  "(name, Dir sub) \<in> set es \<Longrightarrow> recursive cfg \<Longrightarrow>
     allow_hidden_subdirectories cfg \<or> \<not> starts_with_dot name \<Longrightarrow>
     p \<in> set (walk search cfg (tp @ [name]) sub) \<Longrightarrow> p \<in> set (walk search cfg tp es)"
proof (induction es)
  case Nil
  then show ?case by simp
next
  case (Cons e es)
  obtain n' x where e: "e = (n', x)" by (cases e)
  from Cons show ?case unfolding e by (cases x) auto
qed

lemma walk_complete:
  "reachable_file cfg tp es p \<Longrightarrow> file_matches search cfg p \<Longrightarrow>
     p \<in> set (walk search cfg tp es)"
proof (induction rule: reachable_file.induct)
  case (here name items es tp)
  then show ?case by (rule walk_file_entry)
next
  case (below name sub es tp p)
  from below.hyps(1,2,3) below.IH[OF below.prems] show ?case by (rule walk_dir_entry)
qed

lemma walk_reachable:
  "set (walk search cfg tp es) = {p. reachable_file cfg tp es p \<and> file_matches search cfg p}"
  using walk_sound walk_complete by blast

text \<open>
  Claim C4. With no pattern set, \<open>iter_file_paths\<close> yields exactly the regular files
  reachable from the entries of the root (a file among the entries of the root, or of a
  subdirectory that is entered: only when \<open>recursive\<close> holds and, for a name that starts
  with a dot, only when hidden subdirectories are allowed) whose name does not start with a
  dot unless \<open>allow_hidden\<close> holds. Only regular files are reachable, so no directory is
  yielded. When the root cannot be listed the error of the listing is raised.
\<close>

theorem iter_file_paths_reachable:
  fixes search :: "'p \<Rightarrow> string \<Rightarrow> bool" and cfg :: "'p provider" and fs :: node
    and tp :: "path option"
  assumes "regex_whitelist cfg = None" and "regex_blacklist cfg = None"
    and "regex_path_whitelist cfg = None" and "regex_path_blacklist cfg = None"
  defines "d \<equiv> (case tp of None \<Rightarrow> directory cfg | Some q \<Rightarrow> q)"
  shows "(\<forall>es. iterdir fs d = Inr es \<longrightarrow>
      (\<exists>ps. iter_file_paths search cfg fs tp = Inr ps
         \<and> set ps = {p. reachable_file cfg d es p
                        \<and> (allow_hidden cfg \<or> \<not> starts_with_dot (path_name p))}))
    \<and> (\<forall>e. iterdir fs d = Inl e \<longrightarrow> iter_file_paths search cfg fs tp = Inl e)"
  using assms(1-4)
  by (simp add: iter_file_paths_def d_def Let_def walk_reachable file_matches_no_filters)


lemma example_paths_default:
  "iter_file_paths char_search (default_provider [''proj'']) example_fs None
     = Inr [[''proj'', ''a.txt''], [''proj'', ''blank''], [''proj'', ''sub'', ''b.txt''],
            [''proj'', ''bad.bin''], [''proj'', ''z.txt''], [''proj'', ''empty'', ''void'']]"
  by code_simp

lemma example_fs_dir: "\<exists>es. iterdir example_fs [''proj''] = Inr es"
  by (simp add: iterdir_def example_fs_def)

theorem iter_file_paths_reachable_witness:
  "regex_whitelist (default_provider [''proj''] :: char provider) = None
   \<and> regex_blacklist (default_provider [''proj''] :: char provider) = None
   \<and> regex_path_whitelist (default_provider [''proj''] :: char provider) = None
   \<and> regex_path_blacklist (default_provider [''proj''] :: char provider) = None
   \<and> (\<exists>es. iterdir example_fs [''proj''] = Inr es
        \<and> iter_file_paths char_search (default_provider [''proj'']) example_fs None
            = Inr [[''proj'', ''a.txt''], [''proj'', ''blank''], [''proj'', ''sub'', ''b.txt''],
                   [''proj'', ''bad.bin''], [''proj'', ''z.txt''],
                   [''proj'', ''empty'', ''void'']]
        \<and> reachable_file (default_provider [''proj''] :: char provider) [''proj''] es
              [''proj'', ''sub'', ''b.txt'']
        \<and> \<not> reachable_file (default_provider [''proj''] :: char provider) [''proj''] es
              [''proj'', ''.git'', ''c''])"
proof -
  let ?cfg = "default_provider [''proj''] :: char provider"
  have nf: "regex_whitelist ?cfg = None" "regex_blacklist ?cfg = None"
    "regex_path_whitelist ?cfg = None" "regex_path_blacklist ?cfg = None"
    by (simp_all add: default_provider_def)
  have d: "(case None :: path option of None \<Rightarrow> directory ?cfg | Some q \<Rightarrow> q) = [''proj'']"
    by (simp add: default_provider_def)
  from example_fs_dir obtain es where es: "iterdir example_fs [''proj''] = Inr es" ..
  from iter_file_paths_reachable[OF nf, of example_fs None char_search, unfolded d,
      THEN conjunct1, rule_format, OF es]
  have set: "set [[''proj'', ''a.txt''], [''proj'', ''blank''], [''proj'', ''sub'', ''b.txt''],
            [''proj'', ''bad.bin''], [''proj'', ''z.txt''], [''proj'', ''empty'', ''void'']]
      = {p. reachable_file ?cfg [''proj''] es p
            \<and> (allow_hidden ?cfg \<or> \<not> starts_with_dot (path_name p))}"
    by (simp add: example_paths_default)
  have "[''proj'', ''sub'', ''b.txt''] \<in> {p. reachable_file ?cfg [''proj''] es p
            \<and> (allow_hidden ?cfg \<or> \<not> starts_with_dot (path_name p))}"
    unfolding set[symmetric] by simp
  then have r1: "reachable_file ?cfg [''proj''] es [''proj'', ''sub'', ''b.txt'']" by simp
  have "[''proj'', ''.git'', ''c''] \<notin> {p. reachable_file ?cfg [''proj''] es p
            \<and> (allow_hidden ?cfg \<or> \<not> starts_with_dot (path_name p))}"
    unfolding set[symmetric] by simp
  then have r2: "\<not> reachable_file ?cfg [''proj''] es [''proj'', ''.git'', ''c'']"
    by (simp add: path_name_def starts_with_dot_def)
  from nf es example_paths_default r1 r2 show ?thesis by blast
qed

end
